theory Spec2Isabelle
  imports Complex_Main
begin

section \<open>JavaScript values\<close>

text \<open>
  A JavaScript number is modelled as an exact rational or one of the three special values
  of IEEE 754. Arithmetic on finite values is exact: rounding and overflow of doubles are
  not modelled, and zero carries no sign (it behaves as \<open>+0\<close>, which is what
  \<open>now - previousTime\<close> yields for equal operands). The special values follow IEEE 754.
  Statements about the running sum are kept in the order in which the program adds and
  subtracts, so that they do not depend on the arithmetic being exact.
\<close>

datatype jsnum = Fin rat | PInf | NInf | NaN

datatype jsval = Undefined | Num jsnum

fun is_finite :: "jsnum \<Rightarrow> bool" where
  "is_finite (Fin _) = True"
| "is_finite _ = False"

fun js_neg :: "jsnum \<Rightarrow> jsnum" where
  "js_neg (Fin a) = Fin (- a)"
| "js_neg PInf = NInf"
| "js_neg NInf = PInf"
| "js_neg NaN = NaN"

fun js_add :: "jsnum \<Rightarrow> jsnum \<Rightarrow> jsnum" where
  "js_add (Fin a) (Fin b) = Fin (a + b)"
| "js_add NaN _ = NaN"
| "js_add _ NaN = NaN"
| "js_add PInf NInf = NaN"
| "js_add NInf PInf = NaN"
| "js_add PInf _ = PInf"
| "js_add _ PInf = PInf"
| "js_add NInf _ = NInf"
| "js_add _ NInf = NInf"

definition js_sub :: "jsnum \<Rightarrow> jsnum \<Rightarrow> jsnum" where
  "js_sub x y = js_add x (js_neg y)"

text \<open>The sign of a number as IEEE multiplication and division see it (zero counts as \<open>+0\<close>).\<close>

fun js_negative :: "jsnum \<Rightarrow> bool" where
  "js_negative (Fin a) = (a < 0)"
| "js_negative NInf = True"
| "js_negative _ = False"

fun js_mul :: "jsnum \<Rightarrow> jsnum \<Rightarrow> jsnum" where
  "js_mul (Fin a) (Fin b) = Fin (a * b)"
| "js_mul NaN _ = NaN"
| "js_mul _ NaN = NaN"
| "js_mul (Fin a) y = (if a = 0 then NaN else if (a < 0) = js_negative y then PInf else NInf)"
| "js_mul x (Fin b) = (if b = 0 then NaN else if js_negative x = (b < 0) then PInf else NInf)"
| "js_mul x y = (if js_negative x = js_negative y then PInf else NInf)"

fun js_div :: "jsnum \<Rightarrow> jsnum \<Rightarrow> jsnum" where
  "js_div (Fin a) (Fin b) =
     (if b = 0 then (if a = 0 then NaN else if a < 0 then NInf else PInf) else Fin (a / b))"
| "js_div NaN _ = NaN"
| "js_div _ NaN = NaN"
| "js_div (Fin a) _ = Fin 0"
| "js_div x (Fin b) = (if js_negative x = (b < 0) then PInf else NInf)"
| "js_div _ _ = NaN"

text \<open>\<open>ToNumber\<close>, \<open>ToBoolean\<close> and the operator \<open>||\<close> on the values that occur.\<close>

fun to_number :: "jsval \<Rightarrow> jsnum" where
  "to_number Undefined = NaN"
| "to_number (Num x) = x"

fun truthy :: "jsval \<Rightarrow> bool" where
  "truthy Undefined = False"
| "truthy (Num (Fin a)) = (a \<noteq> 0)"
| "truthy (Num NaN) = False"
| "truthy (Num _) = True"

definition js_or :: "jsval \<Rightarrow> jsval \<Rightarrow> jsval" where
  "js_or x y = (if truthy x then x else y)"

text \<open>
  A JavaScript array of numbers: reading past the end gives \<open>undefined\<close>, writing past
  the end extends the array, leaving holes that read as \<open>undefined\<close>.
\<close>

definition js_get :: "jsval list \<Rightarrow> nat \<Rightarrow> jsval" where
  "js_get xs i = (if i < length xs then xs ! i else Undefined)"

definition js_set :: "jsval list \<Rightarrow> nat \<Rightarrow> jsval \<Rightarrow> jsval list" where
  "js_set xs i v =
     (if i < length xs then xs[i := v]
      else xs @ replicate (i - length xs) Undefined @ [v])"

section \<open>The animation callback \<open>render\<close>\<close>

text \<open>
  The variables of \<open>main\<close> that \<open>render\<close> closes over, with two observations added:
  \<open>averageFPS\<close> is the number whose \<open>toFixed(1)\<close> rendering is written to the
  \<open>#fps\<close> element, and \<open>draws\<close> lists the \<open>cubeRotation\<close> argument of every
  \<open>drawScene\<close> call made by \<open>render\<close>, oldest first. The timestamp handed to the callback
  is a finite number of milliseconds.
\<close>

record loop_state =
  previousTime :: rat
  cubeRotation :: rat
  deltaTime :: rat
  frameTimes :: "jsval list"
  frameCursor :: nat
  numFrames :: nat
  totalFPS :: jsnum
  averageFPS :: jsnum
  draws :: "jsval list"

definition maxFrames :: nat where
  "maxFrames = 500"

text \<open>
  The state \<open>main\<close> sets up before it registers \<open>render\<close>. No average has been
  written yet; the model holds 0 in \<open>averageFPS\<close> until the first frame.
\<close>

definition init :: loop_state where
  "init = \<lparr> previousTime = 0, cubeRotation = 0, deltaTime = 0, frameTimes = [],
            frameCursor = 0, numFrames = 0, totalFPS = Fin 0, averageFPS = Fin 0,
            draws = [] \<rparr>"

text \<open>
  The first three statements of \<open>render\<close>: the frame clock. The parameter \<open>now\<close> is
  rebound to seconds; the model names the converted value \<open>now'\<close>.
\<close>

definition frame_clock :: "rat \<Rightarrow> loop_state \<Rightarrow> loop_state" where
  "frame_clock now s =
     (let now' = now * 0.001 in
      s \<lparr> deltaTime := now' - previousTime s, previousTime := now' \<rparr>)"

text \<open>The draw call and the advance of the rotation.\<close>

definition advance_rotation :: "loop_state \<Rightarrow> loop_state" where
  "advance_rotation s =
     s \<lparr> draws := draws s @ [Num (Fin (cubeRotation s))],
         cubeRotation := cubeRotation s + deltaTime s \<rparr>"

text \<open>The rolling average over the last \<open>maxFrames\<close> frames.\<close>

definition fps_of :: "loop_state \<Rightarrow> jsnum" where
  "fps_of s = js_div (Fin 1) (Fin (deltaTime s))"

definition fps_update :: "loop_state \<Rightarrow> loop_state" where
  "fps_update s =
     (let fps = fps_of s;
          totalFPS' = js_add (totalFPS s)
            (js_sub fps (to_number (js_or (js_get (frameTimes s) (frameCursor s)) (Num (Fin 0)))));
          frameTimes' = js_set (frameTimes s) (frameCursor s) (Num fps);
          frameCursor' = frameCursor s + 1;
          numFrames' = max (numFrames s) frameCursor';
          frameCursor'' = frameCursor' mod maxFrames;
          averageFPS' = js_div totalFPS' (Fin (of_nat numFrames'))
      in s \<lparr> frameTimes := frameTimes', frameCursor := frameCursor'', numFrames := numFrames',
             totalFPS := totalFPS', averageFPS := averageFPS' \<rparr>)"

definition render :: "rat \<Rightarrow> loop_state \<Rightarrow> loop_state" where
  "render now s = fps_update (advance_rotation (frame_clock now s))"

text \<open>The loop: \<open>render\<close> called once per timestamp, starting from \<open>init\<close>.\<close>

definition run :: "rat list \<Rightarrow> loop_state" where
  "run ts = foldl (\<lambda>s now. render now s) init ts"

text \<open>The states after each frame, oldest first, and what each frame computed.\<close>

fun frames :: "loop_state \<Rightarrow> rat list \<Rightarrow> loop_state list" where
  "frames s [] = []"
| "frames s (now # ts) = render now s # frames (render now s) ts"

definition observed_deltas :: "rat list \<Rightarrow> rat list" where
  "observed_deltas ts = map deltaTime (frames init ts)"

definition inserted :: "rat list \<Rightarrow> jsnum list" where
  "inserted ts = map fps_of (frames init ts)"

text \<open>Sums of JavaScript numbers, added left to right from 0, and the last \<open>n\<close> of a list.\<close>

definition js_sum :: "jsnum list \<Rightarrow> jsnum" where
  "js_sum xs = foldl js_add (Fin 0) xs"

definition last_n :: "nat \<Rightarrow> 'a list \<Rightarrow> 'a list" where
  "last_n n xs = drop (length xs - n) xs"

text \<open>The samples resident in the ring: \<open>frameTimes[i]\<close> for \<open>i\<close> from 0 to \<open>numFrames - 1\<close>.\<close>

definition resident :: "loop_state \<Rightarrow> jsnum list" where
  "resident s = map (\<lambda>i. to_number (js_get (frameTimes s) i)) [0..<numFrames s]"

section \<open>The model-view matrix of \<open>drawScene\<close>\<close>

text \<open>
  The matrix library (gl-matrix) is not part of the repository; \<open>drawScene\<close> is modelled
  over any library, given as a record of the three operations it calls. Each operation
  returns the matrix it writes to its destination argument, which in every call is
  \<open>modelViewMatrix\<close> itself. The angle of a rotation is whatever JavaScript value the
  caller passes; \<open>rad\<close> stands for the parameter \<open>cubeRotation\<close> of \<open>drawScene\<close>.
\<close>

type_synonym vec3 = "rat \<times> rat \<times> rat"

record 'm mat4_lib =
  mat4_create :: 'm
  mat4_translate :: "'m \<Rightarrow> vec3 \<Rightarrow> 'm"
  mat4_rotate :: "'m \<Rightarrow> jsval \<Rightarrow> vec3 \<Rightarrow> 'm"

definition modelViewMatrix :: "'m mat4_lib \<Rightarrow> jsval \<Rightarrow> 'm" where
  "modelViewMatrix lib rad =
     (let m0 = mat4_create lib;
          m1 = mat4_translate lib m0 (- 0, 0, - 6);
          m2 = mat4_rotate lib m1 rad (0, 0, 1);
          m3 = mat4_rotate lib m2 (Num (js_mul (to_number rad) (Fin 0.7))) (0, 1, 0);
          m4 = mat4_rotate lib m3 (Num (js_mul (to_number rad) (Fin 0.3))) (1, 0, 0)
      in m4)"

text \<open>
  A library that only records the transforms it is asked to compose: a matrix is the list
  of transforms multiplied so far, leftmost first.
\<close>

datatype transform = Translation vec3 | Rotation jsval vec3

definition recording_lib :: "transform list mat4_lib" where
  "recording_lib = \<lparr> mat4_create = [],
                     mat4_translate = (\<lambda>a v. a @ [Translation v]),
                     mat4_rotate = (\<lambda>a rad axis. a @ [Rotation rad axis]) \<rparr>"

section \<open>Start-up: \<open>main\<close>, \<open>initShaderProgram\<close>, \<open>loadShader\<close>\<close>

text \<open>
  The graphics context is an environment that answers the status queries; every call the
  program makes is recorded as an event, in order. A shader object is identified by its
  type, and there is one program object. \<open>DeleteProgram\<close> is an event of the interface
  that the program never issues.

  In the WebGL interface the shader argument of \<open>attachShader\<close> and the program argument
  of \<open>getAttribLocation\<close> and \<open>getUniformLocation\<close> are not nullable: called with
  \<open>null\<close> they raise \<open>TypeError\<close> before anything is done, and nothing in the program
  catches it. Such a call records no event and ends the function with the error.
\<close>

datatype js_error = TypeError

datatype shader_type = VERTEX_SHADER | FRAGMENT_SHADER

datatype shader_source = vsSource1 | vsSource2 | fsSource1 | fsSource2

datatype shader = Shader shader_type

datatype program = Program

record gl_env =
  webgl_available :: bool
  compile_status :: "shader_type \<Rightarrow> shader_source \<Rightarrow> bool"
  shader_info_log :: "shader_type \<Rightarrow> shader_source \<Rightarrow> string"
  link_status :: bool
  program_info_log :: string

datatype event =
    Alert string
  | ClearColor
  | Clear
  | CreateShader shader_type
  | ShaderSource shader shader_source
  | CompileShader shader
  | DeleteShader shader
  | CreateProgram
  | AttachShader program shader
  | LinkProgram program
  | DeleteProgram program
  | GetAttribLocation program string
  | GetUniformLocation program string
  | InitBuffers
  | DrawScene "program option" jsval
  | RequestAnimationFrame

fun is_draw :: "event \<Rightarrow> bool" where
  "is_draw (DrawScene _ _) = True"
| "is_draw _ = False"

definition loadShader :: "gl_env \<Rightarrow> shader_type \<Rightarrow> shader_source \<Rightarrow> event list \<times> shader option" where
  "loadShader gl type source =
     (let shader = Shader type;
          calls = [CreateShader type, ShaderSource shader source, CompileShader shader]
      in if \<not> compile_status gl type source
         then (calls @ [Alert (''An error occurred compiling the shaders: ''
                                @ shader_info_log gl type source),
                        DeleteShader shader], None)
         else (calls, Some shader))"

text \<open>
  \<open>initShaderProgram\<close> returns the events and either the error it ended with or the
  value it returned, \<open>None\<close> for \<open>null\<close>. Both shaders are loaded and the program is
  created before the first \<open>attachShader\<close>.
\<close>

definition initShaderProgram ::
  "gl_env \<Rightarrow> shader_source \<Rightarrow> shader_source \<Rightarrow> event list \<times> (js_error + program option)" where
  "initShaderProgram gl vsSource fsSource =
     (let (calls1, vertexShader) = loadShader gl VERTEX_SHADER vsSource;
          (calls2, fragmentShader) = loadShader gl FRAGMENT_SHADER fsSource;
          shaderProgram = Program;
          created = calls1 @ calls2 @ [CreateProgram]
      in case vertexShader of
           None \<Rightarrow> (created, Inl TypeError)
         | Some vs \<Rightarrow>
             (case fragmentShader of
                None \<Rightarrow> (created @ [AttachShader shaderProgram vs], Inl TypeError)
              | Some fs \<Rightarrow>
                  (let linked = created @ [AttachShader shaderProgram vs,
                                           AttachShader shaderProgram fs,
                                           LinkProgram shaderProgram]
                   in if \<not> link_status gl
                      then (linked @ [Alert (''Unable to initialize the shader program: ''
                                             @ program_info_log gl)], Inr None)
                      else (linked, Inr (Some shaderProgram)))))"

text \<open>
  \<open>main\<close> returns the events of start-up and either the error it ended with or, when
  it returned, the state the loop starts from if it got as far as registering \<open>render\<close>.
  With a null \<open>shaderProgram\<close> the first \<open>getAttribLocation\<close> raises. \<open>DrawScene p r\<close>
  records a call of \<open>drawScene\<close> with \<open>programInfo.program = p\<close> and fourth argument
  \<open>r\<close>; the one call in \<open>main\<close> passes three arguments, so its fourth is \<open>undefined\<close>.
\<close>

definition main :: "gl_env \<Rightarrow> event list \<times> (js_error + loop_state option)" where
  "main gl =
     (if \<not> webgl_available gl
      then ([Alert ''Unable to initialize WebGL. Your browser may not support it.''], Inr None)
      else
        (let (calls, result) = initShaderProgram gl vsSource2 fsSource2
         in case result of
              Inl e \<Rightarrow> ([ClearColor, Clear] @ calls, Inl e)
            | Inr None \<Rightarrow> ([ClearColor, Clear] @ calls, Inl TypeError)
            | Inr (Some shaderProgram) \<Rightarrow>
                ([ClearColor, Clear] @ calls @
                 [GetAttribLocation shaderProgram ''aVertexPosition'',
                  GetAttribLocation shaderProgram ''aVertexColor'',
                  GetUniformLocation shaderProgram ''uProjectionMatrix'',
                  GetUniformLocation shaderProgram ''uModelViewMatrix'',
                  InitBuffers,
                  DrawScene (Some shaderProgram) Undefined,
                  RequestAnimationFrame],
                 Inr (Some init))))"

text \<open>
  Three contexts: one where everything succeeds, one where only linking fails, and one
  where the fragment shader does not compile.
\<close>

definition gl_ok :: gl_env where
  "gl_ok = \<lparr> webgl_available = True, compile_status = (\<lambda>_ _. True),
             shader_info_log = (\<lambda>_ _. []), link_status = True,
             program_info_log = [] \<rparr>"

definition gl_link_fails :: gl_env where
  "gl_link_fails = \<lparr> webgl_available = True, compile_status = (\<lambda>_ _. True),
             shader_info_log = (\<lambda>_ _. []), link_status = False,
             program_info_log = ''varyings do not match'' \<rparr>"

definition gl_compile_fails :: gl_env where
  "gl_compile_fails = \<lparr> webgl_available = True,
             compile_status = (\<lambda>type _. type = VERTEX_SHADER),
             shader_info_log = (\<lambda>_ _. ''syntax error''), link_status = False,
             program_info_log = [] \<rparr>"

section \<open>Two timestamp streams\<close>

text \<open>
  \<open>steady\<close>: 501 frames one second apart, the first at 1000 ms. \<open>stalled\<close>: the same
  frames after one more frame at 1000 ms, so that its second frame has the timestamp of
  its first and a delta of zero; 502 frames.
\<close>

definition steady :: "rat list" where
  "steady = map (\<lambda>i. of_nat i * 1000) [1..<502]"

definition stalled :: "rat list" where
  "stalled = 1000 # steady"

section \<open>What one call of \<open>render\<close> does to each variable\<close>

lemma run_Nil: "run [] = init"
  by (simp add: run_def)

lemma run_snoc: "run (ts @ [t]) = render t (run ts)"
  by (simp add: run_def)

lemma previousTime_render: "previousTime (render now s) = now * 0.001"
  by (simp add: render_def fps_update_def advance_rotation_def frame_clock_def Let_def)

lemma deltaTime_render: "deltaTime (render now s) = now * 0.001 - previousTime s"
  by (simp add: render_def fps_update_def advance_rotation_def frame_clock_def Let_def)

lemma cubeRotation_render:
  "cubeRotation (render now s) = cubeRotation s + (now * 0.001 - previousTime s)"
  by (simp add: render_def fps_update_def advance_rotation_def frame_clock_def Let_def)

lemma draws_render: "draws (render now s) = draws s @ [Num (Fin (cubeRotation s))]"
  by (simp add: render_def fps_update_def advance_rotation_def frame_clock_def Let_def)

lemma frameCursor_render: "frameCursor (render now s) = (frameCursor s + 1) mod maxFrames"
  by (simp add: render_def fps_update_def advance_rotation_def frame_clock_def Let_def)

lemma numFrames_render: "numFrames (render now s) = max (numFrames s) (frameCursor s + 1)"
  by (simp add: render_def fps_update_def advance_rotation_def frame_clock_def Let_def)

lemma fps_of_render: "fps_of (render now s) = js_div (Fin 1) (Fin (now * 0.001 - previousTime s))"
  by (simp add: fps_of_def deltaTime_render)

lemma frameTimes_render:
  "frameTimes (render now s) = js_set (frameTimes s) (frameCursor s) (Num (fps_of (render now s)))"
  by (simp add: render_def fps_update_def advance_rotation_def frame_clock_def Let_def fps_of_def)

lemma totalFPS_render:
  "totalFPS (render now s) = js_add (totalFPS s)
     (js_sub (fps_of (render now s))
        (to_number (js_or (js_get (frameTimes s) (frameCursor s)) (Num (Fin 0)))))"
  by (simp add: render_def fps_update_def advance_rotation_def frame_clock_def Let_def fps_of_def)

lemma averageFPS_render:
  "averageFPS (render now s) =
     js_div (totalFPS (render now s)) (Fin (of_nat (numFrames (render now s))))"
  by (simp add: render_def fps_update_def advance_rotation_def frame_clock_def Let_def fps_of_def)

lemma frames_snoc:
  "frames s (ts @ [t]) = frames s ts @ [render t (foldl (\<lambda>s now. render now s) s ts)]"
  by (induction ts arbitrary: s) simp_all

lemma frames_init_snoc: "frames init (ts @ [t]) = frames init ts @ [run (ts @ [t])]"
  by (simp add: frames_snoc run_def)

lemma length_frames: "length (frames s ts) = length ts"
  by (induction ts arbitrary: s) simp_all

lemma inserted_snoc: "inserted (ts @ [t]) = inserted ts @ [fps_of (run (ts @ [t]))]"
  by (simp add: inserted_def frames_init_snoc)

lemma length_inserted: "length (inserted ts) = length ts"
  by (simp add: inserted_def length_frames)

lemma observed_deltas_snoc:
  "observed_deltas (ts @ [t]) = observed_deltas ts @ [t * 0.001 - previousTime (run ts)]"
  by (simp add: observed_deltas_def frames_init_snoc run_snoc deltaTime_render)

lemma previousTime_run: "previousTime (run ts) = (if ts = [] then 0 else last ts * 0.001)"
  by (cases ts rule: rev_cases) (simp_all add: run_Nil init_def run_snoc previousTime_render)

lemma cubeRotation_run: "cubeRotation (run ts) = sum_list (observed_deltas ts)"
proof (induction ts rule: rev_induct)
  case Nil
  show ?case by (simp add: run_Nil init_def observed_deltas_def)
next
  case (snoc t ts)
  then show ?case
    by (simp add: run_snoc cubeRotation_render observed_deltas_snoc)
qed

lemma deltaTime_frames_nth:
  "i < length ts \<Longrightarrow>
   deltaTime (frames s ts ! i) =
     ts ! i * 0.001 - (if i = 0 then previousTime s else ts ! (i - 1) * 0.001)"
proof (induction ts arbitrary: s i)
  case Nil
  then show ?case by simp
next
  case (Cons t ts)
  show ?case
  proof (cases i)
    case 0
    then show ?thesis by (simp add: deltaTime_render)
  next
    case (Suc n)
    with Cons.prems have "n < length ts" by simp
    from Cons.IH [OF this, of "render t s"] Suc show ?thesis
      by (cases n) (simp_all add: previousTime_render)
  qed
qed

section \<open>JavaScript arithmetic\<close>

lemma js_sub_zero: "js_sub x (Fin 0) = x"
  by (cases x) (simp_all add: js_sub_def)

lemma evicted_Undefined: "to_number (js_or Undefined (Num (Fin 0))) = Fin 0"
  by (simp add: js_or_def)

lemma js_sum_Nil: "js_sum [] = Fin 0"
  by (simp add: js_sum_def)

lemma js_sum_snoc: "js_sum (xs @ [x]) = js_add (js_sum xs) x"
  by (simp add: js_sum_def)

lemma is_finite_js_add: "is_finite (js_add x y) \<longleftrightarrow> is_finite x \<and> is_finite y"
  by (cases x; cases y) simp_all

lemma js_sum_finite: "\<forall>x\<in>set xs. is_finite x \<Longrightarrow> is_finite (js_sum xs)"
  by (induction xs rule: rev_induct) (simp_all add: js_sum_Nil js_sum_snoc is_finite_js_add)

lemma fps_of_zero: "deltaTime s = 0 \<Longrightarrow> fps_of s = PInf"
  by (simp add: fps_of_def)

lemma is_finite_fps_of: "is_finite (fps_of s) \<longleftrightarrow> deltaTime s \<noteq> 0"
  by (simp add: fps_of_def)

lemma js_get_js_set:
  "i \<le> length xs \<Longrightarrow> js_get (js_set xs i v) j = (if j = i then v else js_get xs j)"
  by (auto simp: js_get_def js_set_def nth_append)

section \<open>The shape of the ring after any number of frames\<close>

lemma ring_shape:
  "frameCursor (run ts) = length ts mod maxFrames \<and>
   numFrames (run ts) = min (length ts) maxFrames \<and>
   length (frameTimes (run ts)) = min (length ts) maxFrames"
proof (induction ts rule: rev_induct)
  case Nil
  show ?case by (simp add: run_Nil init_def)
next
  case (snoc t ts)
  have N: "0 < maxFrames" by (simp add: maxFrames_def)
  show ?case
  proof (cases "length ts < maxFrames")
    case True
    with snoc show ?thesis
      by (simp add: run_snoc frameCursor_render numFrames_render frameTimes_render js_set_def
          mod_Suc)
  next
    case False
    then have c: "length ts mod maxFrames < maxFrames" using N by simp
    from False snoc c show ?thesis
      by (simp add: run_snoc frameCursor_render numFrames_render frameTimes_render js_set_def
          mod_Suc)
  qed
qed

lemma cursor_le_length: "frameCursor (run ts) \<le> length (frameTimes (run ts))"
proof (cases "length ts < maxFrames")
  case True
  then show ?thesis using ring_shape [of ts] by simp
next
  case False
  have "length ts mod maxFrames < maxFrames" by (simp add: maxFrames_def)
  with False show ?thesis using ring_shape [of ts] by simp
qed

text \<open>
  Claim C5. After every update the cursor is below \<open>maxFrames\<close> and is the number of
  updates modulo \<open>maxFrames\<close>, each update moving it one slot on with wrap-around;
  \<open>numFrames\<close> is at most \<open>maxFrames\<close>, never decreases from one update to the next, and
  is the number of updates until it reaches \<open>maxFrames\<close>, where it stays.
\<close>

theorem cursor_and_filled_bounds:
  "frameCursor (run ts) < maxFrames \<and>
   frameCursor (run ts) = length ts mod maxFrames \<and>
   frameCursor (run (ts @ [t])) = (frameCursor (run ts) + 1) mod maxFrames \<and>
   numFrames (run ts) \<le> maxFrames \<and>
   numFrames (run ts) \<le> numFrames (run (ts @ [t])) \<and>
   numFrames (run ts) = min (length ts) maxFrames"
proof -
  have "length ts mod maxFrames < maxFrames" by (simp add: maxFrames_def)
  then show ?thesis
    using ring_shape [of ts] ring_shape [of "ts @ [t]"]
    by (simp add: run_snoc frameCursor_render)
qed

section \<open>The frame clock and the rotation\<close>

text \<open>
  Claim C8. \<open>previousTime\<close> starts at 0, so the delta of the first frame is its timestamp
  in seconds. In every call the clock statements store the timestamp in \<open>previousTime\<close> and
  the difference in \<open>deltaTime\<close> and change nothing else, and the rest of \<open>render\<close>
  leaves both as the clock set them.
\<close>

theorem frame_clock_first_delta:
  "previousTime init = 0 \<and>
   deltaTime (run [now]) = now * 0.001 \<and>
   previousTime (render now s) = now * 0.001 \<and>
   frame_clock now s =
     s \<lparr> deltaTime := now * 0.001 - previousTime s, previousTime := now * 0.001 \<rparr> \<and>
   previousTime (fps_update (advance_rotation s)) = previousTime s \<and>
   deltaTime (fps_update (advance_rotation s)) = deltaTime s"
  by (simp add: run_def deltaTime_render previousTime_render init_def frame_clock_def
      fps_update_def advance_rotation_def Let_def)

lemma observed_deltas_formula:
  "observed_deltas ts =
     map (\<lambda>i. ts ! i * 0.001 - (if i = 0 then 0 else ts ! (i - 1) * 0.001)) [0..<length ts]"
  by (rule nth_equalityI)
     (simp_all add: observed_deltas_def length_frames deltaTime_frames_nth init_def)

lemma cubeRotation_foldl: "cubeRotation (run ts) = foldl (+) 0 (observed_deltas ts)"
proof (induction ts rule: rev_induct)
  case Nil
  show ?case by (simp add: run_Nil init_def observed_deltas_def)
next
  case (snoc t ts)
  then show ?case
    by (simp add: run_snoc cubeRotation_render observed_deltas_snoc)
qed

text \<open>
  Claim C6. The delta of a frame is its timestamp in seconds minus that of the frame
  before it, and minus 0 for the first frame. After any number of frames, at least one,
  the rotation is the deltas of those frames added up in order from 0; the next frame adds
  its own delta to it and, with timestamps that do not decrease, does not make it smaller.
\<close>

theorem rotation_accumulates:
  assumes "0 < length ts" and "sorted (ts @ [t])"
  shows "observed_deltas ts =
           map (\<lambda>i. ts ! i * 0.001 - (if i = 0 then 0 else ts ! (i - 1) * 0.001))
             [0..<length ts] \<and>
         cubeRotation (run ts) = foldl (+) 0 (observed_deltas ts) \<and>
         cubeRotation (run (ts @ [t])) = cubeRotation (run ts) + (t * 0.001 - last ts * 0.001) \<and>
         cubeRotation (run ts) \<le> cubeRotation (run (ts @ [t]))"
proof -
  from assms(1) have ne: "ts \<noteq> []" by auto
  then have "last ts \<in> set ts" by simp
  with assms(2) have "last ts \<le> t" by (auto simp: sorted_append)
  then have "last ts * 0.001 \<le> t * 0.001" by simp
  moreover have "cubeRotation (run (ts @ [t])) =
      cubeRotation (run ts) + (t * 0.001 - last ts * 0.001)"
    using ne by (simp add: run_snoc cubeRotation_render previousTime_run)
  ultimately show ?thesis
    using observed_deltas_formula [of ts] cubeRotation_foldl [of ts] by simp
qed

theorem rotation_accumulates_witness:
  "0 < length [16, 33 :: rat] \<and> sorted ([16, 33] @ [50 :: rat]) \<and>
   observed_deltas [16, 33] = [16 * 0.001, 33 * 0.001 - 16 * 0.001] \<and>
   cubeRotation (run [16, 33]) = foldl (+) 0 (observed_deltas [16, 33]) \<and>
   cubeRotation (run ([16, 33] @ [50])) = cubeRotation (run [16, 33]) + (50 * 0.001 - 33 * 0.001) \<and>
   cubeRotation (run [16, 33]) \<le> cubeRotation (run ([16, 33] @ [50]))"
proof -
  have h1: "0 < length [16, 33 :: rat]" by simp
  have h2: "sorted ([16, 33] @ [50 :: rat])" by simp
  have u: "[0..<length [16, 33 :: rat]] = [0, 1]" by (simp add: upt_rec)
  from rotation_accumulates [OF h1 h2] h1 h2 show ?thesis
    by (simp add: u)
qed

section \<open>The rolling average\<close>

subsection \<open>Which sample sits in which slot\<close>

lemma mod_distinct_in_window:
  fixes j k n :: nat
  assumes "j < k" "k < j + n"
  shows "j mod n \<noteq> k mod n"
proof
  assume "j mod n = k mod n"
  then have "n dvd (k - j)"
    using assms(1) by (metis mod_eq_dvd_iff_nat less_imp_le)
  moreover have "0 < k - j" "k - j < n" using assms by auto
  ultimately show False using nat_dvd_not_less by blast
qed

lemma ring_content:
  "j < length ts \<Longrightarrow> length ts \<le> j + maxFrames \<Longrightarrow>
   js_get (frameTimes (run ts)) (j mod maxFrames) = Num (inserted ts ! j)"
proof (induction ts rule: rev_induct)
  case Nil
  then show ?case by simp
next
  case (snoc t ts)
  have cur: "frameCursor (run ts) = length ts mod maxFrames"
    using ring_shape [of ts] by simp
  have cl: "length ts mod maxFrames \<le> length (frameTimes (run ts))"
    using cursor_le_length [of ts] cur by simp
  show ?case
  proof (cases "j = length ts")
    case True
    then show ?thesis
      by (simp add: run_snoc frameTimes_render js_get_js_set cl cur
          inserted_snoc nth_append length_inserted)
  next
    case False
    with snoc.prems have lt: "j < length ts" and win: "length ts < j + maxFrames" by auto
    then have ne: "j mod maxFrames \<noteq> length ts mod maxFrames"
      by (rule mod_distinct_in_window)
    from lt win have "js_get (frameTimes (run ts)) (j mod maxFrames) = Num (inserted ts ! j)"
      by (intro snoc.IH) auto
    with ne lt show ?thesis
      by (simp add: run_snoc frameTimes_render js_get_js_set cl cur
          inserted_snoc nth_append length_inserted)
  qed
qed

lemma warmup_slot_empty:
  "length ts < maxFrames \<Longrightarrow> js_get (frameTimes (run ts)) (frameCursor (run ts)) = Undefined"
  using ring_shape [of ts] by (simp add: js_get_def)

lemma full_slot_oldest:
  assumes "maxFrames \<le> length ts"
  shows "js_get (frameTimes (run ts)) (frameCursor (run ts)) =
           Num (inserted ts ! (length ts - maxFrames))"
proof -
  have N: "0 < maxFrames" by (simp add: maxFrames_def)
  have "(length ts - maxFrames) mod maxFrames = length ts mod maxFrames"
    using assms by (simp add: le_mod_geq)
  moreover have "js_get (frameTimes (run ts)) ((length ts - maxFrames) mod maxFrames)
      = Num (inserted ts ! (length ts - maxFrames))"
    using assms N by (intro ring_content) auto
  ultimately show ?thesis using ring_shape [of ts] by simp
qed

lemma slot_in_window:
  assumes "i < maxFrames" "maxFrames \<le> k"
  shows "\<exists>j. j < k \<and> k \<le> j + maxFrames \<and> j mod maxFrames = i"
proof -
  define n where "n = maxFrames"
  define b where "b = k - n"
  define q where "q = b div n"
  define r where "r = b mod n"
  define j where "j = b + (i + n - r) mod n"
  have n: "0 < n" and i: "i < n" and k: "n \<le> k"
    using assms by (simp_all add: n_def maxFrames_def)
  have r: "r < n" using n by (simp add: r_def)
  have bd: "b = n * q + r" by (simp add: q_def r_def)
  have "(i + n - r) mod n < n" using n by simp
  then have 1: "j < k" using k by (simp add: j_def b_def)
  have 2: "k \<le> j + n" using k by (simp add: j_def b_def)
  have "b + (i + n - r) = i + n * (q + 1)" using r bd by (simp add: algebra_simps)
  then have "(b + (i + n - r)) mod n = i" using i by (simp del: mult_Suc_right)
  then have 3: "j mod n = i" by (simp add: j_def mod_add_right_eq)
  from 1 2 3 show ?thesis unfolding n_def by blast
qed

lemma resident_full: "resident (run ts) = map to_number (frameTimes (run ts))"
proof -
  have "numFrames (run ts) = length (frameTimes (run ts))"
    using ring_shape [of ts] by simp
  then show ?thesis
    by (auto intro!: nth_equalityI simp: resident_def js_get_def)
qed

lemma resident_in_window:
  assumes "maxFrames \<le> length ts" and "x \<in> set (resident (run ts))"
  shows "x \<in> set (last_n maxFrames (inserted ts))"
proof -
  have len: "length (frameTimes (run ts)) = maxFrames"
    using ring_shape [of ts] assms(1) by simp
  from assms(2) obtain i where i: "i < maxFrames" and x: "x = to_number (frameTimes (run ts) ! i)"
    by (auto simp: resident_full in_set_conv_nth len)
  from slot_in_window [OF i assms(1)] obtain j where
    j: "j < length ts" "length ts \<le> j + maxFrames" "j mod maxFrames = i" by blast
  from ring_content [OF j(1) j(2)] j(3) i len have "x = inserted ts ! j"
    by (simp add: x js_get_def)
  moreover from j have "length ts - maxFrames \<le> j" by simp
  ultimately show ?thesis
    using j(1)
    by (auto simp: last_n_def length_inserted in_set_conv_nth
        intro!: exI [of _ "j - (length ts - maxFrames)"])
qed

subsection \<open>The first \<open>maxFrames\<close> frames\<close>

lemma warmup_total:
  "length ts \<le> maxFrames \<Longrightarrow> totalFPS (run ts) = js_sum (inserted ts)"
proof (induction ts rule: rev_induct)
  case Nil
  show ?case by (simp add: run_Nil init_def inserted_def js_sum_Nil)
next
  case (snoc t ts)
  then have lt: "length ts < maxFrames" by simp
  with snoc show ?case
    by (simp add: run_snoc totalFPS_render warmup_slot_empty evicted_Undefined js_sub_zero
        inserted_snoc js_sum_snoc)
qed

text \<open>
  Claim C3. After \<open>k\<close> updates, \<open>0 < k < maxFrames\<close>, the reported average is the sum of
  the \<open>k\<close> inserted fps values divided by \<open>k\<close>.
\<close>

theorem warmup_average:
  assumes "0 < length ts" and "length ts < maxFrames"
  shows "averageFPS (run ts) = js_div (js_sum (inserted ts)) (Fin (of_nat (length ts)))"
proof -
  from assms(1) obtain us t where ts: "ts = us @ [t]"
    by (cases ts rule: rev_cases) auto
  have "averageFPS (run ts) = js_div (totalFPS (run ts)) (Fin (of_nat (numFrames (run ts))))"
    by (simp add: ts run_snoc averageFPS_render)
  moreover have "numFrames (run ts) = length ts"
    using ring_shape [of ts] assms(2) by simp
  moreover have "totalFPS (run ts) = js_sum (inserted ts)"
    using assms(2) by (intro warmup_total) simp
  ultimately show ?thesis by simp
qed

theorem warmup_average_witness:
  "0 < length [100, 150, 200 :: rat] \<and> length [100, 150, 200 :: rat] < maxFrames \<and>
   averageFPS (run [100, 150, 200]) =
     js_div (js_sum (inserted [100, 150, 200])) (Fin (of_nat (length [100, 150, 200 :: rat])))"
proof -
  have h1: "0 < length [100, 150, 200 :: rat]" by simp
  have h2: "length [100, 150, 200 :: rat] < maxFrames" by (simp add: maxFrames_def)
  from warmup_average [OF h1 h2] h1 h2 show ?thesis by blast
qed

subsection \<open>A frame with a zero delta\<close>

lemma total_after_zero_delta:
  "deltaTime (render now s) = 0 \<Longrightarrow> \<not> is_finite (totalFPS (render now s))"
  by (simp add: totalFPS_render fps_of_zero is_finite_js_add js_sub_def)

lemma total_stays_infinite:
  "\<not> is_finite (totalFPS s) \<Longrightarrow> \<not> is_finite (totalFPS (render now s))"
  by (simp add: totalFPS_render is_finite_js_add)

lemma zero_delta_poisons_total:
  "\<exists>s\<in>set (frames init ts). deltaTime s = 0 \<Longrightarrow> \<not> is_finite (totalFPS (run ts))"
proof (induction ts rule: rev_induct)
  case Nil
  then show ?case by simp
next
  case (snoc t ts)
  show ?case
  proof (cases "deltaTime (run (ts @ [t])) = 0")
    case True
    then show ?thesis by (simp add: run_snoc total_after_zero_delta)
  next
    case False
    with snoc.prems have "\<exists>s\<in>set (frames init ts). deltaTime s = 0"
      by (simp add: frames_init_snoc)
    then have "\<not> is_finite (totalFPS (run ts))" by (rule snoc.IH)
    then show ?thesis by (simp add: run_snoc total_stays_infinite)
  qed
qed

subsection \<open>The two streams\<close>

lemma length_steady: "length steady = 501"
  by (simp add: steady_def)

lemma steady_nth: "i < 501 \<Longrightarrow> steady ! i = of_nat (Suc i) * 1000"
  by (simp add: steady_def)

lemma length_stalled: "length stalled = 502"
  by (simp add: stalled_def length_steady)

lemma stalled_nth: "i < 502 \<Longrightarrow> stalled ! i = (if i = 0 then 1000 else of_nat i * 1000)"
  by (cases i) (simp_all add: stalled_def steady_nth)

lemma stalled_delta:
  "i < 502 \<Longrightarrow> deltaTime (frames init stalled ! i) = (if i = 1 then 0 else 1)"
proof (cases i)
  case 0
  then show ?thesis by (simp add: deltaTime_frames_nth length_stalled stalled_nth init_def)
next
  case (Suc n)
  assume "i < 502"
  with Suc show ?thesis
    by (cases n) (simp_all add: deltaTime_frames_nth length_stalled stalled_nth algebra_simps)
qed

lemma stalled_total: "\<not> is_finite (totalFPS (run stalled))"
proof -
  have "frames init stalled ! 1 \<in> set (frames init stalled)"
    by (simp add: length_frames length_stalled)
  moreover have "deltaTime (frames init stalled ! 1) = 0"
    by (simp add: stalled_delta)
  ultimately show ?thesis by (intro zero_delta_poisons_total) blast
qed

lemma stalled_window_finite: "\<forall>x\<in>set (last_n maxFrames (inserted stalled)). is_finite x"
proof
  fix x assume "x \<in> set (last_n maxFrames (inserted stalled))"
  then have "x \<in> set (drop 2 (inserted stalled))"
    by (simp add: last_n_def length_inserted length_stalled maxFrames_def)
  then obtain i where i: "i < 500" and x: "x = inserted stalled ! (2 + i)"
    by (auto simp: in_set_conv_nth length_inserted length_stalled)
  from i have "deltaTime (frames init stalled ! (2 + i)) = 1"
    by (simp add: stalled_delta)
  with i x show "is_finite x"
    by (simp add: inserted_def length_frames length_stalled is_finite_fps_of)
qed

subsection \<open>The running sum over the window\<close>

text \<open>
  In \<open>stalled\<close> the second frame inserts \<open>+Infinity\<close>. From then on \<open>totalFPS\<close> is
  never finite again, also after that sample has left the window, while the last
  \<open>maxFrames\<close> inserted values are all finite: after these 502 updates the running sum is
  not the sum of the last \<open>maxFrames\<close> values.
\<close>

theorem window_sum_counterexample:
  "maxFrames < length stalled \<and>
   totalFPS (run stalled) \<noteq> js_sum (last_n maxFrames (inserted stalled))"
proof -
  have "is_finite (js_sum (last_n maxFrames (inserted stalled)))"
    using stalled_window_finite by (rule js_sum_finite)
  with stalled_total show ?thesis
    by (auto simp: length_stalled maxFrames_def)
qed

lemma truthy_fps_of: "truthy (Num (fps_of s))"
  by (simp add: fps_of_def)

lemma evicted_inserted: "to_number (js_or (Num (fps_of s)) (Num (Fin 0))) = fps_of s"
  by (simp add: js_or_def truthy_fps_of)

lemma inserted_nth: "j < length ts \<Longrightarrow> inserted ts ! j = fps_of (frames init ts ! j)"
  by (simp add: inserted_def length_frames)

lemma evicted_value:
  "to_number (js_or (js_get (frameTimes (run ts)) (frameCursor (run ts))) (Num (Fin 0))) =
     (if length ts < maxFrames then Fin 0 else inserted ts ! (length ts - maxFrames))"
proof (cases "length ts < maxFrames")
  case True
  then show ?thesis by (simp add: warmup_slot_empty evicted_Undefined)
next
  case False
  then have full: "maxFrames \<le> length ts" by simp
  have "0 < maxFrames" by (simp add: maxFrames_def)
  with full have "length ts - maxFrames < length ts" by simp
  then show ?thesis
    using False by (simp add: full_slot_oldest [OF full] inserted_nth evicted_inserted)
qed

lemma total_step:
  "totalFPS (run (ts @ [t])) =
     js_add (totalFPS (run ts))
       (js_sub (fps_of (run (ts @ [t])))
          (if length ts < maxFrames then Fin 0 else inserted ts ! (length ts - maxFrames)))"
  by (simp only: run_snoc totalFPS_render evicted_value)

lemma total_telescopes:
  "totalFPS (run ts) =
     foldl js_add (Fin 0)
       (map (\<lambda>k. js_sub (inserted ts ! k)
                  (if k < maxFrames then Fin 0 else inserted ts ! (k - maxFrames)))
            [0..<length ts])"
proof (induction ts rule: rev_induct)
  case Nil
  show ?case by (simp add: run_Nil init_def)
next
  case (snoc t ts)
  have N: "0 < maxFrames" by (simp add: maxFrames_def)
  have old: "map (\<lambda>k. js_sub (inserted (ts @ [t]) ! k)
                  (if k < maxFrames then Fin 0 else inserted (ts @ [t]) ! (k - maxFrames)))
            [0..<length ts] =
        map (\<lambda>k. js_sub (inserted ts ! k)
                  (if k < maxFrames then Fin 0 else inserted ts ! (k - maxFrames)))
            [0..<length ts]"
    by (rule map_cong) (auto simp: inserted_snoc nth_append length_inserted)
  have new: "js_sub (inserted (ts @ [t]) ! length ts)
                  (if length ts < maxFrames then Fin 0
                   else inserted (ts @ [t]) ! (length ts - maxFrames)) =
        js_sub (fps_of (run (ts @ [t])))
          (if length ts < maxFrames then Fin 0 else inserted ts ! (length ts - maxFrames))"
    using N by (auto simp: inserted_snoc nth_append length_inserted)
  show ?case
    by (simp add: total_step snoc.IH old new)
qed

text \<open>
  Claim C1, amended. After more than \<open>maxFrames\<close> updates \<open>totalFPS\<close> is what results
  from adding, update by update and starting from 0, the inserted fps value minus the value
  it replaces in the ring: 0 in the first \<open>maxFrames\<close> updates, afterwards the value
  inserted exactly \<open>maxFrames\<close> updates earlier. Every value older than the last
  \<open>maxFrames\<close> has thus been subtracted again; in particular the last update subtracted
  the value inserted \<open>maxFrames\<close> updates before it.
\<close>

theorem window_sum_telescopes:
  assumes "maxFrames < length ts"
  shows "totalFPS (run ts) =
           foldl js_add (Fin 0)
             (map (\<lambda>k. js_sub (inserted ts ! k)
                        (if k < maxFrames then Fin 0 else inserted ts ! (k - maxFrames)))
                  [0..<length ts]) \<and>
         totalFPS (run ts) =
           js_add (totalFPS (run (butlast ts)))
             (js_sub (last (inserted ts)) (inserted ts ! (length ts - 1 - maxFrames)))"
proof -
  from assms obtain us t where ts: "ts = us @ [t]"
    by (cases ts rule: rev_cases) auto
  with assms have full: "\<not> length us < maxFrames" by simp
  have "0 < maxFrames" by (simp add: maxFrames_def)
  with assms ts have idx: "length us - maxFrames < length us" by simp
  have "totalFPS (run ts) =
           js_add (totalFPS (run (butlast ts)))
             (js_sub (last (inserted ts)) (inserted ts ! (length ts - 1 - maxFrames)))"
    using full idx
    by (simp add: ts total_step inserted_snoc nth_append length_inserted)
  with total_telescopes [of ts] show ?thesis by blast
qed

theorem window_sum_telescopes_witness:
  "maxFrames < length steady \<and>
   totalFPS (run steady) =
     foldl js_add (Fin 0)
       (map (\<lambda>k. js_sub (inserted steady ! k)
                  (if k < maxFrames then Fin 0 else inserted steady ! (k - maxFrames)))
            [0..<length steady]) \<and>
   totalFPS (run steady) =
     js_add (totalFPS (run (butlast steady)))
       (js_sub (last (inserted steady)) (inserted steady ! (length steady - 1 - maxFrames)))"
proof -
  have h: "maxFrames < length steady" by (simp add: length_steady maxFrames_def)
  from window_sum_telescopes [OF h] h show ?thesis by blast
qed

text \<open>
  The same run breaks the invariant: every sample resident in the ring after the 502
  updates of \<open>stalled\<close> is finite, and \<open>totalFPS\<close> is not.
\<close>

theorem running_sum_counterexample:
  "totalFPS (run stalled) \<noteq> js_sum (resident (run stalled))"
proof -
  have "maxFrames \<le> length stalled" by (simp add: length_stalled maxFrames_def)
  then have "\<forall>x\<in>set (resident (run stalled)). is_finite x"
    using resident_in_window stalled_window_finite by blast
  then have "is_finite (js_sum (resident (run stalled)))" by (rule js_sum_finite)
  with stalled_total show ?thesis by auto
qed

lemma newest_in_slot:
  assumes "i < maxFrames" "i < k"
  defines "j \<equiv> i + maxFrames * ((k - 1 - i) div maxFrames)"
  shows "j < k \<and> k \<le> j + maxFrames \<and> j mod maxFrames = i"
proof -
  define n where "n = maxFrames"
  define m where "m = k - 1 - i"
  define q where "q = m div n"
  define r where "r = m mod n"
  have n: "0 < n" by (simp add: n_def maxFrames_def)
  have r: "r < n" using n by (simp add: r_def)
  have md: "m = n * q + r" by (simp add: q_def r_def)
  have k: "k = m + i + 1" using assms(2) by (simp add: m_def)
  have j: "j = i + n * q" by (simp add: j_def n_def q_def m_def)
  have 1: "j < k" using j k md by simp
  have 2: "k \<le> j + n" using j k md r by simp
  have 3: "j mod n = i" using assms(1) j by (simp add: n_def)
  from 1 2 3 show ?thesis by (simp add: n_def)
qed

lemma slot_value:
  assumes "i < min (length ts) maxFrames"
  shows "js_get (frameTimes (run ts)) i =
           Num (inserted ts ! (i + maxFrames * ((length ts - 1 - i) div maxFrames)))"
proof -
  from assms have i: "i < maxFrames" "i < length ts" by simp_all
  from newest_in_slot [OF i] ring_content [of "i + maxFrames * ((length ts - 1 - i) div maxFrames)" ts]
  show ?thesis by simp
qed

lemma length_resident: "length (resident (run ts)) = min (length ts) maxFrames"
  using ring_shape [of ts] by (simp add: resident_def)

lemma resident_newest:
  "resident (run ts) =
     map (\<lambda>i. inserted ts ! (i + maxFrames * ((length ts - 1 - i) div maxFrames)))
       [0..<min (length ts) maxFrames]"
proof (rule nth_equalityI)
  show "length (resident (run ts)) =
    length (map (\<lambda>i. inserted ts ! (i + maxFrames * ((length ts - 1 - i) div maxFrames)))
       [0..<min (length ts) maxFrames])"
    by (simp add: length_resident)
next
  fix i assume "i < length (resident (run ts))"
  then have i: "i < min (length ts) maxFrames" by (simp add: length_resident)
  then have "i < numFrames (run ts)" using ring_shape [of ts] by simp
  then have "resident (run ts) ! i = to_number (js_get (frameTimes (run ts)) i)"
    by (simp add: resident_def)
  with i show "resident (run ts) ! i =
      map (\<lambda>i. inserted ts ! (i + maxFrames * ((length ts - 1 - i) div maxFrames)))
       [0..<min (length ts) maxFrames] ! i"
    by (simp add: slot_value)
qed

lemma overwritten_sample:
  "to_number (js_or (js_get (frameTimes (run ts)) (frameCursor (run ts))) (Num (Fin 0))) =
     (if frameCursor (run ts) < numFrames (run ts)
      then resident (run ts) ! frameCursor (run ts) else Fin 0)"
proof (cases "length ts < maxFrames")
  case True
  then have "\<not> frameCursor (run ts) < numFrames (run ts)"
    using ring_shape [of ts] by simp
  with True show ?thesis by (simp add: evicted_value)
next
  case False
  then have full: "maxFrames \<le> length ts" by simp
  have lt: "frameCursor (run ts) < numFrames (run ts)"
    using ring_shape [of ts] full by (simp add: maxFrames_def)
  then have "resident (run ts) ! frameCursor (run ts) = inserted ts ! (length ts - maxFrames)"
    by (simp add: resident_def full_slot_oldest [OF full])
  with lt False show ?thesis
    by (simp add: evicted_value)
qed

lemma frameTimes_run_snoc:
  "frameTimes (run (ts @ [t])) =
     js_set (frameTimes (run ts)) (frameCursor (run ts)) (Num (fps_of (run (ts @ [t]))))"
  by (simp add: run_snoc frameTimes_render)

lemma resident_step:
  "resident (run (ts @ [t])) =
     (if frameCursor (run ts) < numFrames (run ts)
      then (resident (run ts))[frameCursor (run ts) := fps_of (run (ts @ [t]))]
      else resident (run ts) @ [fps_of (run (ts @ [t]))])"
proof -
  have len: "numFrames (run ts) = length (frameTimes (run ts))"
    using ring_shape [of ts] by simp
  have cl: "frameCursor (run ts) \<le> length (frameTimes (run ts))"
    by (rule cursor_le_length)
  have new: "resident (run (ts @ [t])) =
      map to_number (js_set (frameTimes (run ts)) (frameCursor (run ts))
        (Num (fps_of (run (ts @ [t])))))"
    by (simp only: resident_full frameTimes_run_snoc)
  have old: "resident (run ts) = map to_number (frameTimes (run ts))"
    by (rule resident_full)
  show ?thesis
  proof (cases "frameCursor (run ts) < numFrames (run ts)")
    case True
    then show ?thesis
      using len by (simp add: new old js_set_def map_update)
  next
    case False
    with cl len have "frameCursor (run ts) = length (frameTimes (run ts))" by simp
    with False show ?thesis
      by (simp add: new old js_set_def)
  qed
qed

lemma total_step_resident:
  "totalFPS (run (ts @ [t])) =
     js_add (totalFPS (run ts))
       (js_sub (fps_of (run (ts @ [t])))
          (if frameCursor (run ts) < numFrames (run ts)
           then resident (run ts) ! frameCursor (run ts) else Fin 0))"
  by (simp only: run_snoc totalFPS_render overwritten_sample)

text \<open>
  Claim C4, amended. After every update the resident samples, \<open>frameTimes[i]\<close> for
  \<open>i\<close> from 0 to \<open>numFrames - 1\<close>, are the most recent \<open>numFrames\<close> inserted fps
  values, slot \<open>i\<close> holding the latest one whose index is \<open>i\<close> modulo \<open>maxFrames\<close>.
  An update overwrites the sample under the cursor, or appends when that slot has never
  been written, and adds to \<open>totalFPS\<close> the new value minus the overwritten sample, or
  minus 0.
\<close>

theorem ring_holds_newest_samples:
  "resident (run ts) =
     map (\<lambda>i. inserted ts ! (i + maxFrames * ((length ts - 1 - i) div maxFrames)))
       [0..<min (length ts) maxFrames] \<and>
   resident (run (ts @ [t])) =
     (if frameCursor (run ts) < numFrames (run ts)
      then (resident (run ts))[frameCursor (run ts) := fps_of (run (ts @ [t]))]
      else resident (run ts) @ [fps_of (run (ts @ [t]))]) \<and>
   totalFPS (run (ts @ [t])) =
     js_add (totalFPS (run ts))
       (js_sub (fps_of (run (ts @ [t])))
          (if frameCursor (run ts) < numFrames (run ts)
           then resident (run ts) ! frameCursor (run ts) else Fin 0))"
  by (intro conjI resident_newest resident_step total_step_resident)

subsection \<open>No guard against a zero delta\<close>

text \<open>
  Two frames with the same timestamp: the second has delta 0, its fps is \<open>+Infinity\<close>,
  and so is the average reported for it.
\<close>

theorem zero_delta_counterexample:
  "deltaTime (run [16, 16]) = 0 \<and> averageFPS (run [16, 16]) = PInf"
  by (simp add: run_def render_def fps_update_def advance_rotation_def frame_clock_def
      fps_of_def js_or_def js_get_def js_set_def js_sub_def init_def maxFrames_def Let_def)

text \<open>
  Claim C2, amended. \<open>render\<close> applies no policy to a zero delta: in whatever state the
  frame arrives, its fps is \<open>+Infinity\<close> and the average reported for it is
  \<open>+Infinity\<close> or \<open>NaN\<close>.
\<close>

theorem zero_delta_average:
  assumes "now * 0.001 = previousTime s"
  shows "deltaTime (render now s) = 0 \<and> fps_of (render now s) = PInf \<and>
         (averageFPS (render now s) = PInf \<or> averageFPS (render now s) = NaN)"
proof -
  have d: "deltaTime (render now s) = 0" using assms by (simp add: deltaTime_render)
  then have f: "fps_of (render now s) = PInf" by (rule fps_of_zero)
  let ?e = "to_number (js_or (js_get (frameTimes s) (frameCursor s)) (Num (Fin 0)))"
  have "js_sub PInf ?e = PInf \<or> js_sub PInf ?e = NaN"
    by (cases ?e) (simp_all add: js_sub_def)
  then have t: "totalFPS (render now s) = PInf \<or> totalFPS (render now s) = NaN"
    by (cases "totalFPS s") (auto simp: totalFPS_render f)
  have "(0::rat) < of_nat (numFrames (render now s))"
    by (simp add: numFrames_render)
  with t have "averageFPS (render now s) = PInf \<or> averageFPS (render now s) = NaN"
    by (auto simp: averageFPS_render)
  with d f show ?thesis by simp
qed

theorem zero_delta_average_witness:
  "(16::rat) * 0.001 = previousTime (run [16]) \<and> deltaTime (render 16 (run [16])) = 0 \<and>
   fps_of (render 16 (run [16])) = PInf \<and>
   (averageFPS (render 16 (run [16])) = PInf \<or> averageFPS (render 16 (run [16])) = NaN)"
proof -
  have h: "(16::rat) * 0.001 = previousTime (run [16])"
    by (simp add: run_def previousTime_render)
  from zero_delta_average [OF h] h show ?thesis by blast
qed

section \<open>The model-view matrix\<close>

text \<open>
  Claim C7. For a library whose \<open>create\<close> gives the identity and whose \<open>translate\<close> and
  \<open>rotate\<close> multiply the given matrix on the right by the translation or rotation matrix,
  \<open>drawScene\<close> called with rotation \<open>r\<close> builds
  \<open>T(0,0,-6) * R(r, Z) * R(0.7 r, Y) * R(0.3 r, X)\<close>.
\<close>

theorem modelView_composition:
  assumes "mat4_create lib = one"
    and "\<And>a v. mat4_translate lib a v = mul a (T v)"
    and "\<And>a rad axis. mat4_rotate lib a rad axis = mul a (R rad axis)"
    and "\<And>a. mul one a = a"
    and "\<And>a b c. mul (mul a b) c = mul a (mul b c)"
  shows "modelViewMatrix lib (Num (Fin r)) =
           mul (T (0, 0, - 6))
             (mul (R (Num (Fin r)) (0, 0, 1))
               (mul (R (Num (Fin (r * 0.7))) (0, 1, 0))
                    (R (Num (Fin (r * 0.3))) (1, 0, 0))))"
  by (simp add: modelViewMatrix_def Let_def assms)

theorem modelView_composition_witness:
  "mat4_create recording_lib = [] \<and>
   (\<forall>a v. mat4_translate recording_lib a v = a @ [Translation v]) \<and>
   (\<forall>a rad axis. mat4_rotate recording_lib a rad axis = a @ [Rotation rad axis]) \<and>
   (\<forall>a :: transform list. [] @ a = a) \<and>
   (\<forall>a b c :: transform list. (a @ b) @ c = a @ (b @ c)) \<and>
   modelViewMatrix recording_lib (Num (Fin 2)) =
     [Translation (0, 0, - 6)] @ [Rotation (Num (Fin 2)) (0, 0, 1)] @
     [Rotation (Num (Fin (2 * 0.7))) (0, 1, 0)] @ [Rotation (Num (Fin (2 * 0.3))) (1, 0, 0)]"
proof -
  have h1: "mat4_create recording_lib = []" by (simp add: recording_lib_def)
  have h2: "\<And>a v. mat4_translate recording_lib a v = a @ [Translation v]"
    by (simp add: recording_lib_def)
  have h3: "\<And>a rad axis. mat4_rotate recording_lib a rad axis = a @ [Rotation rad axis]"
    by (simp add: recording_lib_def)
  have h4: "\<And>a :: transform list. [] @ a = a" by simp
  have h5: "\<And>a b c :: transform list. (a @ b) @ c = a @ (b @ c)" by simp
  from modelView_composition [of recording_lib "[]" "(@)" "\<lambda>v. [Translation v]"
      "\<lambda>rad axis. [Rotation rad axis]" 2, OF h1 h2 h3 h4 h5] h1 h2 h3
  show ?thesis by simp
qed

section \<open>Start-up\<close>

lemma loadShader_no_draw: "filter is_draw (fst (loadShader gl ty src)) = []"
  by (simp add: loadShader_def Let_def)

lemma initShaderProgram_no_draw: "filter is_draw (fst (initShaderProgram gl vs fs)) = []"
  by (simp add: initShaderProgram_def Let_def loadShader_no_draw split_beta
      split: option.splits)

lemma main_draws:
  "webgl_available gl \<Longrightarrow>
   filter is_draw (fst (main gl)) =
     (case snd (initShaderProgram gl vsSource2 fsSource2) of
        Inr (Some p) \<Rightarrow> [DrawScene (Some p) Undefined]
      | _ \<Rightarrow> [])"
  by (simp add: main_def Let_def split_beta initShaderProgram_no_draw
      split: sum.splits option.splits)

lemma draws_run:
  "draws (run ts) =
     map (\<lambda>k. Num (Fin (sum_list (take k (observed_deltas ts))))) [0..<length ts]"
proof (induction ts rule: rev_induct)
  case Nil
  show ?case by (simp add: run_Nil init_def)
next
  case (snoc t ts)
  have "length (observed_deltas ts) = length ts"
    by (simp add: observed_deltas_def length_frames)
  with snoc show ?case
    by (simp add: run_snoc draws_render cubeRotation_run observed_deltas_snoc)
qed

lemma compile_failure_throws:
  "snd (loadShader gl_compile_fails FRAGMENT_SHADER fsSource2) = None \<and>
   fst (loadShader gl_compile_fails FRAGMENT_SHADER fsSource2) =
     [CreateShader FRAGMENT_SHADER, ShaderSource (Shader FRAGMENT_SHADER) fsSource2,
      CompileShader (Shader FRAGMENT_SHADER),
      Alert ''An error occurred compiling the shaders: syntax error'',
      DeleteShader (Shader FRAGMENT_SHADER)] \<and>
   snd (initShaderProgram gl_compile_fails vsSource2 fsSource2) = Inl TypeError \<and>
   snd (main gl_compile_fails) = Inl TypeError \<and>
   CreateProgram \<in> set (fst (main gl_compile_fails)) \<and>
   DeleteProgram Program \<notin> set (fst (main gl_compile_fails)) \<and>
   filter is_draw (fst (main gl_compile_fails)) = []"
  by (simp add: main_def initShaderProgram_def loadShader_def gl_compile_fails_def Let_def)

text \<open>
  Claim C9, evaluated where both shaders compile and linking fails. \<open>initShaderProgram\<close>
  alerts with the program's info log and returns null, and \<open>main\<close> then ends with
  \<open>TypeError\<close> at its first \<open>getAttribLocation\<close>, before any draw and before the loop
  is registered. The program object has been created and is never deleted.
\<close>

theorem link_failure_leaks_program:
  "snd (initShaderProgram gl_link_fails vsSource2 fsSource2) = Inr None \<and>
   Alert ''Unable to initialize the shader program: varyings do not match''
     \<in> set (fst (initShaderProgram gl_link_fails vsSource2 fsSource2)) \<and>
   CreateProgram \<in> set (fst (main gl_link_fails)) \<and>
   DeleteProgram Program \<notin> set (fst (main gl_link_fails)) \<and>
   snd (main gl_link_fails) = Inl TypeError \<and>
   filter is_draw (fst (main gl_link_fails)) = [] \<and>
   RequestAnimationFrame \<notin> set (fst (main gl_link_fails))"
  by (simp add: main_def initShaderProgram_def loadShader_def gl_link_fails_def Let_def)

text \<open>
  Claim C10. When a context is available, \<open>main\<close> calls \<open>drawScene\<close> once if the
  shader program was built and not at all otherwise, and that call has no rotation
  argument: the parameter is \<open>undefined\<close>, the first rotation gets \<open>undefined\<close> as its
  angle and the other two get \<open>NaN\<close>, its products with 0.7 and 0.3. Every call made by
  \<open>render\<close> passes the rotation accumulated so far, the sum of the deltas of the frames
  before it.
\<close>

theorem startup_draw_has_no_rotation:
  assumes "webgl_available gl"
  shows "filter is_draw (fst (main gl)) =
           (case snd (initShaderProgram gl vsSource2 fsSource2) of
              Inr (Some p) \<Rightarrow> [DrawScene (Some p) Undefined]
            | _ \<Rightarrow> []) \<and>
         modelViewMatrix lib Undefined =
           mat4_rotate lib
             (mat4_rotate lib
               (mat4_rotate lib (mat4_translate lib (mat4_create lib) (0, 0, - 6))
                  Undefined (0, 0, 1))
               (Num NaN) (0, 1, 0))
             (Num NaN) (1, 0, 0) \<and>
         draws (run (ts @ [t])) = draws (run ts) @ [Num (Fin (cubeRotation (run ts)))] \<and>
         draws (run ts) =
           map (\<lambda>k. Num (Fin (sum_list (take k (observed_deltas ts))))) [0..<length ts]"
proof -
  have "modelViewMatrix lib Undefined =
           mat4_rotate lib
             (mat4_rotate lib
               (mat4_rotate lib (mat4_translate lib (mat4_create lib) (0, 0, - 6))
                  Undefined (0, 0, 1))
               (Num NaN) (0, 1, 0))
             (Num NaN) (1, 0, 0)"
    by (simp add: modelViewMatrix_def Let_def)
  moreover have "draws (run (ts @ [t])) = draws (run ts) @ [Num (Fin (cubeRotation (run ts)))]"
    by (simp add: run_snoc draws_render)
  ultimately show ?thesis
    using main_draws [OF assms] draws_run [of ts] by blast
qed

theorem startup_draw_has_no_rotation_witness:
  "webgl_available gl_ok \<and>
   filter is_draw (fst (main gl_ok)) = [DrawScene (Some Program) Undefined] \<and>
   modelViewMatrix recording_lib Undefined =
     [Translation (0, 0, - 6), Rotation Undefined (0, 0, 1), Rotation (Num NaN) (0, 1, 0),
      Rotation (Num NaN) (1, 0, 0)] \<and>
   draws (run ([16, 33] @ [50])) = [Num (Fin 0), Num (Fin 0.016), Num (Fin 0.033)]"
proof -
  have h: "webgl_available gl_ok" by (simp add: gl_ok_def)
  have p: "snd (initShaderProgram gl_ok vsSource2 fsSource2) = Inr (Some Program)"
    by (simp add: initShaderProgram_def loadShader_def gl_ok_def Let_def)
  have c: "cubeRotation (run [16, 33]) = 0.033 \<and>
           draws (run [16, 33]) = [Num (Fin 0), Num (Fin 0.016)]"
    by (simp add: run_def render_def fps_update_def advance_rotation_def frame_clock_def
        init_def Let_def)
  from startup_draw_has_no_rotation [OF h, of recording_lib "[16, 33]" 50] h p c
  show ?thesis by (simp add: recording_lib_def)
qed

end
